theory Spec2Isabelle
  imports Main "HOL-Library.Sublist" "HOL-Library.Word" "HOL-Library.AList"
begin

section \<open>Python values\<close>

text \<open>
  A Python \<open>str\<close> is a sequence of code points (each below \<open>0x110000\<close>); a literal
  of the source is written \<open>py ''...''\<close>. A \<open>bytes\<close> object is a list of 8-bit
  words. A \<open>dict\<close> keeps its keys in insertion order, so it is an association list, and
  \<open>d[k] = v\<close> is \<open>AList.update k v d\<close>: an existing key keeps its place.
\<close>

type_synonym pystr = "nat list"
type_synonym byte = "8 word"
type_synonym bytes = "byte list"
type_synonym ascii = "7 word"

definition py :: "string \<Rightarrow> pystr" where
  "py s = map of_char s"

datatype pyval =
    PNone
  | PBool bool
  | PInt int
  | PStr pystr
  | PList "pyval list"
  | PDict "(pystr \<times> pyval) list"

type_synonym dict = "(pystr \<times> pyval) list"

datatype exn =
    UnicodeEncodeError
  | UnicodeDecodeError
  | InvalidToken
  | FileNotFoundError
  | IsADirectoryError
  | NotADirectoryError
  | JSONDecodeError
  | AttributeError
  | TypeError
  | ValueError

text \<open>\<open>str(n)\<close> for an integer, as the f-strings of the source render it.\<close>

function show_nat :: "nat \<Rightarrow> pystr" where
  "show_nat n = (if n < 10 then [48 + n] else show_nat (n div 10) @ [48 + n mod 10])"
  by pat_completeness auto
termination
  by (relation "measure id") auto

definition show_int :: "int \<Rightarrow> pystr" where
  "show_int i = (if i < 0 then 45 # show_nat (nat (- i)) else show_nat (nat i))"

text \<open>\<open>d.get(k, default)\<close>, \<open>len(v)\<close> and \<open>for x in v\<close> on a parsed JSON value.\<close>

definition dict_get :: "pyval \<Rightarrow> pystr \<Rightarrow> pyval \<Rightarrow> exn + pyval" where
  "dict_get d k dflt =
     (case d of
        PDict kvs \<Rightarrow> (case map_of kvs k of None \<Rightarrow> Inr dflt | Some v \<Rightarrow> Inr v)
      | _ \<Rightarrow> Inl AttributeError)"

definition py_len :: "pyval \<Rightarrow> exn + nat" where
  "py_len v =
     (case v of
        PList xs \<Rightarrow> Inr (length xs)
      | PStr s \<Rightarrow> Inr (length s)
      | PDict kvs \<Rightarrow> Inr (length kvs)
      | _ \<Rightarrow> Inl TypeError)"

definition py_iter :: "pyval \<Rightarrow> exn + pyval list" where
  "py_iter v =
     (case v of
        PList xs \<Rightarrow> Inr xs
      | PStr s \<Rightarrow> Inr (map (\<lambda>c. PStr [c]) s)
      | PDict kvs \<Rightarrow> Inr (map (\<lambda>kv. PStr (fst kv)) kvs)
      | _ \<Rightarrow> Inl TypeError)"

text \<open>\<open>a in b\<close> on strings: \<open>a\<close> occurs in \<open>b\<close> as a contiguous run.\<close>

fun str_contains :: "pystr \<Rightarrow> pystr \<Rightarrow> bool" where
  "str_contains a [] = (a = [])"
| "str_contains a (c # cs) = (prefix a (c # cs) \<or> str_contains a cs)"

definition endswith :: "pystr \<Rightarrow> pystr \<Rightarrow> bool" where
  "endswith s suf = (length suf \<le> length s \<and> drop (length s - length suf) s = suf)"

section \<open>UTF-8, the codec of \<open>str.encode()\<close> and \<open>bytes.decode()\<close>\<close>

text \<open>
  \<open>text.encode()\<close> is strict UTF-8: a lone surrogate (\<open>0xD800\<close> to \<open>0xDFFF\<close>)
  raises \<open>UnicodeEncodeError\<close>. \<open>data.decode()\<close> accepts the well-formed sequences
  only: no stray continuation byte, no overlong form, no surrogate, nothing above
  \<open>0x10FFFF\<close>.
\<close>

definition scalar :: "nat \<Rightarrow> bool" where
  "scalar cp = (cp < 0x110000 \<and> \<not> (0xD800 \<le> cp \<and> cp \<le> 0xDFFF))"

definition encode_cp :: "nat \<Rightarrow> exn + nat list" where
  "encode_cp cp =
     (if cp < 0x80 then Inr [cp]
      else if cp < 0x800 then Inr [0xC0 + cp div 64, 0x80 + cp mod 64]
      else if 0xD800 \<le> cp \<and> cp \<le> 0xDFFF then Inl UnicodeEncodeError
      else if cp < 0x10000 then
        Inr [0xE0 + cp div 4096, 0x80 + (cp div 64) mod 64, 0x80 + cp mod 64]
      else
        Inr [0xF0 + cp div 262144, 0x80 + (cp div 4096) mod 64,
             0x80 + (cp div 64) mod 64, 0x80 + cp mod 64])"

definition byte_of :: "nat \<Rightarrow> byte" where
  "byte_of n = of_nat n"

fun utf8_encode :: "pystr \<Rightarrow> exn + bytes" where
  "utf8_encode [] = Inr []"
| "utf8_encode (c # cs) =
     (case encode_cp c of
        Inl e \<Rightarrow> Inl e
      | Inr bs \<Rightarrow> (case utf8_encode cs of
                    Inl e \<Rightarrow> Inl e
                  | Inr r \<Rightarrow> Inr (map byte_of bs @ r)))"

definition is_cont :: "byte \<Rightarrow> bool" where
  "is_cont b = (0x80 \<le> unat b \<and> unat b < 0xC0)"

definition cons_cp :: "nat \<Rightarrow> exn + pystr \<Rightarrow> exn + pystr" where
  "cons_cp cp r = (case r of Inl e \<Rightarrow> Inl e | Inr s \<Rightarrow> Inr (cp # s))"

fun utf8_decode :: "bytes \<Rightarrow> exn + pystr" where
  "utf8_decode [] = Inr []"
| "utf8_decode (b # bs) =
     (let n = unat b in
      if n < 0x80 then cons_cp n (utf8_decode bs)
      else if n < 0xC0 then Inl UnicodeDecodeError
      else if n < 0xE0 then
        (case bs of
           b1 # r \<Rightarrow>
             (let cp = (n - 0xC0) * 64 + (unat b1 - 0x80) in
              if is_cont b1 \<and> 0x80 \<le> cp then cons_cp cp (utf8_decode r)
              else Inl UnicodeDecodeError)
         | _ \<Rightarrow> Inl UnicodeDecodeError)
      else if n < 0xF0 then
        (case bs of
           b1 # b2 # r \<Rightarrow>
             (let cp = (n - 0xE0) * 4096 + (unat b1 - 0x80) * 64 + (unat b2 - 0x80) in
              if is_cont b1 \<and> is_cont b2 \<and> 0x800 \<le> cp \<and> \<not> (0xD800 \<le> cp \<and> cp \<le> 0xDFFF)
              then cons_cp cp (utf8_decode r)
              else Inl UnicodeDecodeError)
         | _ \<Rightarrow> Inl UnicodeDecodeError)
      else if n < 0xF8 then
        (case bs of
           b1 # b2 # b3 # r \<Rightarrow>
             (let cp = (n - 0xF0) * 262144 + (unat b1 - 0x80) * 4096
                       + (unat b2 - 0x80) * 64 + (unat b3 - 0x80) in
              if is_cont b1 \<and> is_cont b2 \<and> is_cont b3 \<and> 0x10000 \<le> cp \<and> cp \<le> 0x10FFFF
              then cons_cp cp (utf8_decode r)
              else Inl UnicodeDecodeError)
         | _ \<Rightarrow> Inl UnicodeDecodeError)
      else Inl UnicodeDecodeError)"

section \<open>The external libraries\<close>

text \<open>
  The repository calls \<open>json\<close>, \<open>cryptography\<close> (Fernet, PBKDF2-HMAC-SHA256),
  \<open>base64\<close> and \<open>cv2\<close>; none of them is code of the repository, so they are
  parameters of the model.
  \<^item> \<open>json_dumps indent v\<close> is \<open>json.dumps(v, indent=indent)\<close>; with the default
    \<open>ensure_ascii\<close> its output is ASCII, which the type records.
  \<^item> \<open>json_loads\<close> is \<open>json.loads\<close>, \<open>None\<close> for a \<open>JSONDecodeError\<close>.
  \<^item> \<open>fernet_encrypt key entropy data\<close> is \<open>Fernet(key).encrypt(data)\<close>, the
    entropy standing for the clock and the random IV; \<open>fernet_decrypt key token\<close> is
    \<open>Fernet(key).decrypt(token)\<close>, \<open>None\<close> for \<open>InvalidToken\<close>.
  \<^item> \<open>fernet_key_ok key\<close> tells whether the constructor \<open>Fernet(key)\<close> accepts the
    key, that is, whether it is the URL-safe base64 of 32 bytes; for any other key the
    constructor raises \<open>ValueError\<close>.
  \<^item> \<open>kdf password salt\<close> is the URL-safe base64 of the 32 bytes that PBKDF2-HMAC-SHA256
    derives in 390000 iterations.
  \<^item> \<open>imread_ok file\<close> tells whether \<open>cv2.imread\<close> can decode the file.
\<close>

record libs =
  json_dumps :: "nat option \<Rightarrow> pyval \<Rightarrow> ascii list"
  json_loads :: "pystr \<Rightarrow> pyval option"
  fernet_encrypt :: "bytes \<Rightarrow> bytes \<Rightarrow> bytes \<Rightarrow> bytes"
  fernet_decrypt :: "bytes \<Rightarrow> bytes \<Rightarrow> bytes option"
  fernet_key_ok :: "bytes \<Rightarrow> bool"
  kdf :: "bytes \<Rightarrow> bytes \<Rightarrow> bytes"
  imread_ok :: "pystr \<Rightarrow> bool"

definition str_of_ascii :: "ascii list \<Rightarrow> pystr" where
  "str_of_ascii t = map unat t"

section \<open>crypto.py\<close>

text \<open>
  \<open>CryptoUtils(key)\<close> keeps \<open>key or Fernet.generate_key()\<close>, the generated key being
  an input of the model, and builds \<open>Fernet(self.key)\<close>, which raises \<open>ValueError\<close>
  for a malformed key. The result is the key of the instance; \<open>encrypt\<close> and
  \<open>decrypt\<close> take the key that an instance holds.
\<close>

definition CryptoUtils :: "libs \<Rightarrow> bytes option \<Rightarrow> bytes \<Rightarrow> exn + bytes" where
  "CryptoUtils L key generated =
     (let self_key = (case key of None \<Rightarrow> generated | Some k \<Rightarrow> if k = [] then generated else k)
      in if fernet_key_ok L self_key then Inr self_key else Inl ValueError)"

definition encrypt :: "libs \<Rightarrow> bytes \<Rightarrow> bytes \<Rightarrow> pystr \<Rightarrow> exn + bytes" where
  "encrypt L key entropy text =
     (case utf8_encode text of
        Inl e \<Rightarrow> Inl e
      | Inr b \<Rightarrow> Inr (fernet_encrypt L key entropy b))"

definition decrypt :: "libs \<Rightarrow> bytes \<Rightarrow> bytes \<Rightarrow> exn + pystr" where
  "decrypt L key token =
     (case fernet_decrypt L key token of
        None \<Rightarrow> Inl InvalidToken
      | Some b \<Rightarrow> utf8_decode b)"

section \<open>redact.py\<close>

text \<open>
  \<open>str.replace(old, new)\<close> scans from the left, replaces the first occurrence of
  \<open>old\<close> and goes on behind it; with an empty \<open>old\<close> it puts \<open>new\<close> in front of
  every character and at the end.
\<close>

function replace_from :: "'a list \<Rightarrow> 'a list \<Rightarrow> 'a list \<Rightarrow> 'a list" where
  "replace_from old new [] = []"
| "replace_from old new (c # cs) =
     (if old \<noteq> [] \<and> prefix old (c # cs)
      then new @ replace_from old new (drop (length old) (c # cs))
      else c # replace_from old new cs)"
  by pat_completeness auto
termination
  by (relation "measure (\<lambda>(old, new, s). length s)") auto

definition str_replace :: "'a list \<Rightarrow> 'a list \<Rightarrow> 'a list \<Rightarrow> 'a list" where
  "str_replace old new s =
     (if old = [] then new @ concat (map (\<lambda>c. c # new) s) else replace_from old new s)"

definition redact :: "pystr \<Rightarrow> pystr" where
  "redact text = str_replace (py ''secret'') (py ''[REDACTED]'') text"

section \<open>The world: objects, files, lock and console\<close>

text \<open>
  Event dicts are objects: the producer, the logger and the store hold references to
  the same dict, so the state has a heap of dicts and the store's two lists hold
  addresses. \<open>fs\<close> is the working directory. The \<open>trace\<close> records, in order, what
  the process does to the lock, the files and the console.
\<close>

datatype node = File bytes | Dir "pystr list"

datatype action =
    LockAcquire
  | LockRelease
  | FileWrite pystr bytes
  | FileAppend pystr bytes
  | FileRead pystr
  | Print pystr
  | PrintObj pystr pyval
  | PrintExn pystr exn
  | ImShow pystr pyval pystr

record state =
  heap :: "nat \<Rightarrow> dict"
  next_free :: nat
  video :: "nat list"
  audio :: "nat list"
  fs :: "pystr \<Rightarrow> node option"
  trace :: "action list"

definition emit :: "action \<Rightarrow> state \<Rightarrow> state" where
  "emit a s = s\<lparr>trace := trace s @ [a]\<rparr>"

definition path_exists :: "pystr \<Rightarrow> state \<Rightarrow> bool" where
  "path_exists p s = (fs s p \<noteq> None)"

definition read_bytes :: "pystr \<Rightarrow> state \<Rightarrow> state \<times> (exn + bytes)" where
  "read_bytes p s =
     (case fs s p of
        None \<Rightarrow> (s, Inl FileNotFoundError)
      | Some (Dir names) \<Rightarrow> (s, Inl IsADirectoryError)
      | Some (File b) \<Rightarrow> (emit (FileRead p) s, Inr b))"

definition write_bytes :: "pystr \<Rightarrow> bytes \<Rightarrow> state \<Rightarrow> state \<times> exn option" where
  "write_bytes p b s =
     (case fs s p of
        Some (Dir names) \<Rightarrow> (s, Some IsADirectoryError)
      | _ \<Rightarrow> (emit (FileWrite p b) (s\<lparr>fs := (fs s)(p \<mapsto> File b)\<rparr>), None))"

definition append_bytes :: "pystr \<Rightarrow> bytes \<Rightarrow> state \<Rightarrow> state \<times> exn option" where
  "append_bytes p b s =
     (case fs s p of
        Some (Dir names) \<Rightarrow> (s, Some IsADirectoryError)
      | Some (File old) \<Rightarrow> (emit (FileAppend p b) (s\<lparr>fs := (fs s)(p \<mapsto> File (old @ b))\<rparr>), None)
      | None \<Rightarrow> (emit (FileAppend p b) (s\<lparr>fs := (fs s)(p \<mapsto> File b)\<rparr>), None))"

text \<open>What a path holds as a regular file; nothing if it is no file.\<close>

definition content :: "pystr \<Rightarrow> state \<Rightarrow> bytes" where
  "content p s = (case fs s p of Some (File b) \<Rightarrow> b | _ \<Rightarrow> [])"

definition listdir :: "pystr \<Rightarrow> state \<Rightarrow> exn + pystr list" where
  "listdir p s =
     (case fs s p of
        None \<Rightarrow> Inl FileNotFoundError
      | Some (File b) \<Rightarrow> Inl NotADirectoryError
      | Some (Dir names) \<Rightarrow> Inr names)"

section \<open>key\_manager.py\<close>

text \<open>
  \<open>urandom16\<close> is what \<open>os.urandom(16)\<close> returns if it is called.
\<close>

definition derive_key_from_password ::
  "libs \<Rightarrow> pystr \<Rightarrow> pystr \<Rightarrow> bytes \<Rightarrow> state \<Rightarrow> state \<times> (exn + bytes)" where
  "derive_key_from_password L password salt_file urandom16 s =
     (let (s1, salt) =
            (if path_exists salt_file s then read_bytes salt_file s
             else (case write_bytes salt_file urandom16 s of
                     (s', None) \<Rightarrow> (s', Inr urandom16)
                   | (s', Some e) \<Rightarrow> (s', Inl e)))
      in case salt of
           Inl e \<Rightarrow> (s1, Inl e)
         | Inr salt \<Rightarrow>
             (case utf8_encode password of
                Inl e \<Rightarrow> (s1, Inl e)
              | Inr pw \<Rightarrow> (s1, Inr (kdf L pw salt))))"

section \<open>schemas.py\<close>

definition validate :: "dict \<Rightarrow> bool" where
  "validate event =
     list_all (\<lambda>key. map_of event key \<noteq> None) [py ''id'', py ''timestamp'', py ''data'']"

section \<open>secure\_logger.py\<close>

text \<open>
  \<open>log_event\<close> gets the address of the caller's dict; \<open>now\<close> is what
  \<open>time.strftime\<close> returns. The result is the new state and the exception that
  escapes, if any.
\<close>

definition log_event ::
  "libs \<Rightarrow> bytes \<Rightarrow> pystr \<Rightarrow> nat \<Rightarrow> pystr \<Rightarrow> bytes \<Rightarrow> state \<Rightarrow> state \<times> exn option" where
  "log_event L key logfile a now entropy s =
     (if \<not> validate (heap s a)
      then (emit (Print (py ''[SecureLogger] Invalid event schema. Skipping log.'')) s, None)
      else
        (let event = AList.update (py ''logged_at'') (PStr now) (heap s a);
             s1 = s\<lparr>heap := (heap s)(a := event)\<rparr>;
             serialized = str_of_ascii (json_dumps L None (PDict event))
         in case encrypt L key entropy serialized of
              Inl e \<Rightarrow> (s1, Some e)
            | Inr encrypted \<Rightarrow>
                (case append_bytes logfile (encrypted @ [0x0A]) s1 of
                   (s2, Some e) \<Rightarrow> (s2, Some e)
                 | (s2, None) \<Rightarrow>
                     (emit (Print (py ''[SecureLogger] Event logged securely at '' @ now)) s2,
                      None))))"

section \<open>sync.py\<close>

definition sync :: "nat \<Rightarrow> state \<Rightarrow> state" where
  "sync a s = emit (PrintObj (py ''[SYNC] Event sent: '') (PDict (heap s a))) s"

section \<open>main.py\<close>

text \<open>
  Of \<open>CortexShadeSystem\<close> the model keeps the student id and the key of its
  \<open>CryptoUtils\<close>; the dict \<open>self.suspicions\<close> is the two lists of the state.
\<close>

record system =
  student_id :: pystr
  key :: bytes

definition system_init ::
  "libs \<Rightarrow> pystr \<Rightarrow> pystr \<Rightarrow> bytes \<Rightarrow> bytes \<Rightarrow> state \<Rightarrow> state \<times> (exn + system)" where
  "system_init L sid password urandom16 generated s =
     (case derive_key_from_password L password (py ''salt.bin'') urandom16 s of
        (s1, Inl e) \<Rightarrow> (s1, Inl e)
      | (s1, Inr k) \<Rightarrow>
          (case CryptoUtils L (Some k) generated of
             Inl e \<Rightarrow> (s1, Inl e)
           | Inr crypto_key \<Rightarrow>
               (s1\<lparr>video := [], audio := []\<rparr>, Inr \<lparr>student_id = sid, key = crypto_key\<rparr>)))"

text \<open>
  One turn of the loop of \<open>run_camera\<close>, from the score that \<open>camera.run\<close> returned:
  \<open>t\<close> is \<open>int(time.time())\<close>, \<open>ts\<close> the producer's \<open>time.strftime\<close>, \<open>now\<close>
  the logger's. The event dict is a new object; the logger, the synchronizer and the
  store get its address.
\<close>

definition new_event :: "dict \<Rightarrow> state \<Rightarrow> nat \<times> state" where
  "new_event event s =
     (next_free s, s\<lparr>heap := (heap s)(next_free s := event), next_free := Suc (next_free s)\<rparr>)"

definition produce ::
  "libs \<Rightarrow> system \<Rightarrow> bool \<Rightarrow> pystr \<Rightarrow> pystr \<Rightarrow> pystr \<Rightarrow> pystr \<Rightarrow> bytes \<Rightarrow> state
   \<Rightarrow> state \<times> exn option" where
  "produce L sys is_video ident ts text now entropy s =
     (let event = [(py ''id'', PStr ident), (py ''timestamp'', PStr ts), (py ''data'', PStr text)];
          (a, s1) = new_event event s;
          s2 = s1\<lparr>heap := (heap s1)(a := AList.update (py ''data'') (PStr (redact text)) (heap s1 a))\<rparr>
      in case log_event L (key sys) (py ''secure_logs.jsonl'') a now entropy s2 of
           (s3, Some e) \<Rightarrow> (s3, Some e)
         | (s3, None) \<Rightarrow>
             (let s4 = emit LockAcquire (sync a s3);
                  s5 = (if is_video then s4\<lparr>video := video s4 @ [a]\<rparr>
                        else s4\<lparr>audio := audio s4 @ [a]\<rparr>)
              in (emit LockRelease s5, None)))"

text \<open>The dict a producer leaves behind: redacted by the producer, stamped by the logger.\<close>

definition stamped :: "pystr \<Rightarrow> pystr \<Rightarrow> pystr \<Rightarrow> pystr \<Rightarrow> dict" where
  "stamped ident ts text now =
     [(py ''id'', PStr ident), (py ''timestamp'', PStr ts), (py ''data'', PStr (redact text)),
      (py ''logged_at'', PStr now)]"

definition run_camera_step ::
  "libs \<Rightarrow> system \<Rightarrow> int \<Rightarrow> int \<Rightarrow> pystr \<Rightarrow> pystr \<Rightarrow> bytes \<Rightarrow> state \<Rightarrow> state \<times> exn option" where
  "run_camera_step L sys score t ts now entropy s =
     (if score > 0
      then produce L sys True (student_id sys @ py ''_cam_'' @ show_int t) ts
             (py ''Camera suspicion score: '' @ show_int score) now entropy s
      else (s, None))"

text \<open>
  One turn of the loop of \<open>run_audio\<close>: \<open>sensed\<close> is what recording, feature
  extraction and classification gave, the label and \<open>str(reasons)\<close>, or the exception
  they raised. The \<open>try\<close> of the loop catches every exception and prints it.
\<close>

definition run_audio_step ::
  "libs \<Rightarrow> system \<Rightarrow> exn + pystr \<times> pystr \<Rightarrow> int \<Rightarrow> pystr \<Rightarrow> pystr \<Rightarrow> bytes \<Rightarrow> state \<Rightarrow> state" where
  "run_audio_step L sys sensed t ts now entropy s =
     (case sensed of
        Inl e \<Rightarrow> emit (PrintExn (py ''[Audio] Error: '') e) s
      | Inr (label, reasons) \<Rightarrow>
          (if label \<in> set [py ''whisper'', py ''background_talk'', py ''tapping'', py ''normal_talk'']
           then (case produce L sys False (student_id sys @ py ''_aud_'' @ show_int t) ts
                        (py ''Audio event: '' @ label @ py '' | Reasons: '' @ reasons) now entropy s of
                   (s1, Some e) \<Rightarrow> emit (PrintExn (py ''[Audio] Error: '') e) s1
                 | (s1, None) \<Rightarrow> s1)
           else s))"

text \<open>
  One turn of the loop of \<open>encrypt_and_save\<close>, after the sleep. The values in the
  store are dicts of strings, which \<open>json.dump\<close> serializes itself, so \<open>convert\<close> is
  never called. The working file is opened in text mode; the text is ASCII and is
  written as it is.
\<close>

definition aggregate :: "state \<Rightarrow> pyval" where
  "aggregate s =
     PDict [(py ''video'', PList (map (\<lambda>a. PDict (heap s a)) (video s))),
            (py ''audio'', PList (map (\<lambda>a. PDict (heap s a)) (audio s)))]"

definition save_body :: "libs \<Rightarrow> system \<Rightarrow> bytes \<Rightarrow> state \<Rightarrow> state \<times> exn option" where
  "save_body L sys entropy s =
     (case write_bytes (py ''suspicions.json'') (map ucast (json_dumps L (Some 2) (aggregate s))) s of
        (s1, Some e) \<Rightarrow> (s1, Some e)
      | (s1, None) \<Rightarrow>
          (case read_bytes (py ''suspicions.json'') s1 of
             (s2, Inl e) \<Rightarrow> (s2, Some e)
           | (s2, Inr data) \<Rightarrow>
               (case utf8_decode data of
                  Inl e \<Rightarrow> (s2, Some e)
                | Inr text \<Rightarrow>
                    (case encrypt L (key sys) entropy text of
                       Inl e \<Rightarrow> (s2, Some e)
                     | Inr encrypted \<Rightarrow>
                         (case write_bytes (py ''suspicions.json.encrypted'') encrypted s2 of
                            (s3, Some e) \<Rightarrow> (s3, Some e)
                          | (s3, None) \<Rightarrow>
                              (emit (Print (py ''[CortexShade] Suspicion log encrypted and saved.'')) s3,
                               None))))))"

definition encrypt_and_save_tick :: "libs \<Rightarrow> system \<Rightarrow> bytes \<Rightarrow> state \<Rightarrow> state \<times> exn option" where
  "encrypt_and_save_tick L sys entropy s =
     (case save_body L sys entropy (emit LockAcquire s) of
        (s1, r) \<Rightarrow> (emit LockRelease s1, r))"

text \<open>What the lock guards: the file and console actions of a trace done while it is held.\<close>

fun under_lock :: "bool \<Rightarrow> action list \<Rightarrow> action list" where
  "under_lock held [] = []"
| "under_lock held (LockAcquire # as) = under_lock True as"
| "under_lock held (LockRelease # as) = under_lock False as"
| "under_lock held (a # as) = (if held then a # under_lock held as else under_lock held as)"

fun outside_lock :: "bool \<Rightarrow> action list \<Rightarrow> action list" where
  "outside_lock held [] = []"
| "outside_lock held (LockAcquire # as) = outside_lock True as"
| "outside_lock held (LockRelease # as) = outside_lock False as"
| "outside_lock held (a # as) = (if held then outside_lock held as else a # outside_lock held as)"

section \<open>admin\_control.py\<close>


definition video_score :: "state \<Rightarrow> exn + nat" where
  "video_score s =
     (if path_exists (py ''screenshots'') s
      then (case listdir (py ''screenshots'') s of
              Inl e \<Rightarrow> Inl e
            | Inr names \<Rightarrow> Inr (length (filter (\<lambda>f. endswith f (py ''.jpg'')) names)))
      else Inr 0)"

definition audio_score :: "pyval \<Rightarrow> exn + nat" where
  "audio_score data =
     (case dict_get data (py ''audio'') (PList []) of
        Inl e \<Rightarrow> Inl e
      | Inr v \<Rightarrow> py_len v)"

fun show_files :: "libs \<Rightarrow> pystr \<Rightarrow> pyval \<Rightarrow> pystr list \<Rightarrow> state \<Rightarrow> state" where
  "show_files L reason timestamp [] s = s"
| "show_files L reason timestamp (file # files) s =
     show_files L reason timestamp files
       (if imread_ok L file then emit (ImShow reason timestamp file) s else s)"

fun display_events :: "libs \<Rightarrow> pyval list \<Rightarrow> state \<Rightarrow> state \<times> exn option" where
  "display_events L [] s = (s, None)"
| "display_events L (event # events) s =
     (case dict_get event (py ''event'') (PStr (py ''unknown'')) of
        Inl e \<Rightarrow> (s, Some e)
      | Inr reason \<Rightarrow>
          (case dict_get event (py ''timestamp'') (PStr (py ''unknown'')) of
             Inl e \<Rightarrow> (s, Some e)
           | Inr timestamp \<Rightarrow>
               (case listdir (py ''screenshots'') s of
                  Inl e \<Rightarrow> (s, Some e)
                | Inr names \<Rightarrow>
                    (case reason of
                       PStr r \<Rightarrow>
                         display_events L events
                           (show_files L r timestamp
                              (filter (\<lambda>f. str_contains r f \<and> endswith f (py ''.jpg'')) names) s)
                     | _ \<Rightarrow>
                         (if names = [] then display_events L events s
                          else (s, Some TypeError))))))"

definition display :: "libs \<Rightarrow> pyval \<Rightarrow> nat \<Rightarrow> state \<Rightarrow> state \<times> exn option" where
  "display L data vscore s =
     (let s1 = emit (Print (10 # py ''=== Displaying Screenshots ==='')) s
      in if vscore > 0
         then (case dict_get data (py ''video'') (PList []) of
                 Inl e \<Rightarrow> (s1, Some e)
               | Inr v \<Rightarrow>
                   (case py_iter v of
                      Inl e \<Rightarrow> (s1, Some e)
                    | Inr events \<Rightarrow> display_events L events s1))
         else (emit (Print (py ''No screenshots found.'')) s1, None))"

definition report :: "libs \<Rightarrow> pyval \<Rightarrow> state \<Rightarrow> state \<times> exn option" where
  "report L data s =
     (let s1 = emit (Print (str_of_ascii (json_dumps L (Some 2) data)))
                 (emit (Print (10 # py ''=== Decrypted Suspicion Log ==='')) s)
      in case video_score s1 of
           Inl e \<Rightarrow> (s1, Some e)
         | Inr vscore \<Rightarrow>
             (case audio_score data of
                Inl e \<Rightarrow> (s1, Some e)
              | Inr ascore \<Rightarrow>
                  (let net_cheating_score = vscore + ascore;
                       s2 = emit (Print (10 # py ''=== Cheating Scores ==='')) s1;
                       s3 = emit (Print (py ''Video Score (based on screenshots): ''
                                         @ show_nat vscore)) s2;
                       s4 = emit (Print (py ''Audio Score (based on log entries): ''
                                         @ show_nat ascore)) s3;
                       s5 = emit (Print (py ''Net Cheating Score: ''
                                         @ show_nat net_cheating_score)) s4
                   in display L data vscore s5)))"


section \<open>Stand-ins for the libraries\<close>

text \<open>
  To run the model on concrete inputs the library parameters need values. These are
  stand-ins, not models of the libraries: a writer of JSON without insignificant
  white space and a reader for what it writes (code points up to \<open>0xFFFF\<close>), a
  cipher that puts the key in front of the data and accepts the keys of 44 bytes, a key
  derivation that joins password and salt and pads to 44 bytes, and an image reader
  that decodes every file.
\<close>

definition hex_digit :: "nat \<Rightarrow> nat" where
  "hex_digit d = (if d < 10 then 48 + d else 87 + d)"

definition hex_value :: "nat \<Rightarrow> nat option" where
  "hex_value c =
     (if 48 \<le> c \<and> c < 58 then Some (c - 48)
      else if 97 \<le> c \<and> c < 103 then Some (c - 87)
      else None)"

definition write_char :: "nat \<Rightarrow> nat list" where
  "write_char c =
     (if c = 34 \<or> c = 92 then [92, c]
      else if 32 \<le> c \<and> c < 127 then [c]
      else [92, 117, hex_digit (c div 4096 mod 16), hex_digit (c div 256 mod 16),
            hex_digit (c div 16 mod 16), hex_digit (c mod 16)])"

definition write_string :: "pystr \<Rightarrow> nat list" where
  "write_string s = 34 # concat (map write_char s) @ [34]"

fun join :: "'a list \<Rightarrow> 'a list list \<Rightarrow> 'a list" where
  "join sep [] = []"
| "join sep [x] = x"
| "join sep (x # y # ys) = x @ sep @ join sep (y # ys)"

fun write_value :: "pyval \<Rightarrow> nat list" where
  "write_value PNone = py ''null''"
| "write_value (PBool b) = (if b then py ''true'' else py ''false'')"
| "write_value (PInt i) = show_int i"
| "write_value (PStr s) = write_string s"
| "write_value (PList xs) = 91 # join [44] (map write_value xs) @ [93]"
| "write_value (PDict kvs) =
     123 # join [44] (map (\<lambda>(k, v). write_string k @ 58 # write_value v) kvs) @ [125]"

fun read_string :: "pystr \<Rightarrow> (pystr \<times> pystr) option" where
  "read_string [] = None"
| "read_string (c # cs) =
     (if c = 34 then Some ([], cs)
      else if c = 92 then
        (case cs of
           [] \<Rightarrow> None
         | e # r \<Rightarrow>
             (if e = 34 \<or> e = 92
              then (case read_string r of None \<Rightarrow> None | Some (s, r') \<Rightarrow> Some (e # s, r'))
              else if e = 117
              then (case r of
                      h3 # h2 # h1 # h0 # r1 \<Rightarrow>
                        (case (hex_value h3, hex_value h2, hex_value h1, hex_value h0) of
                           (Some d3, Some d2, Some d1, Some d0) \<Rightarrow>
                             (case read_string r1 of
                                None \<Rightarrow> None
                              | Some (s, r') \<Rightarrow>
                                  Some ((d3 * 4096 + d2 * 256 + d1 * 16 + d0) # s, r'))
                         | _ \<Rightarrow> None)
                    | _ \<Rightarrow> None)
              else None))
      else (case read_string cs of None \<Rightarrow> None | Some (s, r') \<Rightarrow> Some (c # s, r')))"

definition is_digit :: "nat \<Rightarrow> bool" where
  "is_digit c = (48 \<le> c \<and> c < 58)"

definition read_nat :: "pystr \<Rightarrow> (nat \<times> pystr) option" where
  "read_nat t =
     (let ds = takeWhile is_digit t
      in if ds = [] then None
         else Some (foldl (\<lambda>n d. 10 * n + (d - 48)) 0 ds, dropWhile is_digit t))"

definition next_is :: "nat \<Rightarrow> pystr \<Rightarrow> pystr option" where
  "next_is c t = (case t of [] \<Rightarrow> None | d # r \<Rightarrow> if d = c then Some r else None)"

fun read_value :: "nat \<Rightarrow> pystr \<Rightarrow> (pyval \<times> pystr) option"
  and read_items :: "nat \<Rightarrow> pystr \<Rightarrow> (pyval list \<times> pystr) option"
  and read_members :: "nat \<Rightarrow> pystr \<Rightarrow> (dict \<times> pystr) option" where
  "read_value 0 t = None"
| "read_value (Suc n) t =
     (case t of
        [] \<Rightarrow> None
      | c # r \<Rightarrow>
          (if c = 34 then (case read_string r of None \<Rightarrow> None | Some (s, r') \<Rightarrow> Some (PStr s, r'))
           else if c = 91 then
             (case r of
                [] \<Rightarrow> None
              | d # r' \<Rightarrow>
                  (if d = 93 then Some (PList [], r')
                   else (case read_items n r of None \<Rightarrow> None | Some (xs, r2) \<Rightarrow> Some (PList xs, r2))))
           else if c = 123 then
             (case r of
                [] \<Rightarrow> None
              | d # r' \<Rightarrow>
                  (if d = 125 then Some (PDict [], r')
                   else (case read_members n r of None \<Rightarrow> None | Some (kvs, r2) \<Rightarrow> Some (PDict kvs, r2))))
           else if prefix (py ''null'') t then Some (PNone, drop 4 t)
           else if prefix (py ''true'') t then Some (PBool True, drop 4 t)
           else if prefix (py ''false'') t then Some (PBool False, drop 5 t)
           else if c = 45 then
             (case read_nat r of None \<Rightarrow> None | Some (m, r') \<Rightarrow> Some (PInt (- int m), r'))
           else (case read_nat t of None \<Rightarrow> None | Some (m, r') \<Rightarrow> Some (PInt (int m), r'))))"
| "read_items 0 t = None"
| "read_items (Suc n) t =
     (case read_value n t of
        None \<Rightarrow> None
      | Some (v, r) \<Rightarrow>
          (case r of
             [] \<Rightarrow> None
           | c # r' \<Rightarrow>
               (if c = 93 then Some ([v], r')
                else if c = 44
                then (case read_items n r' of None \<Rightarrow> None | Some (vs, r2) \<Rightarrow> Some (v # vs, r2))
                else None)))"
| "read_members 0 t = None"
| "read_members (Suc n) t =
     (case next_is 34 t of
        None \<Rightarrow> None
      | Some t1 \<Rightarrow>
          (case read_string t1 of
             None \<Rightarrow> None
           | Some (k, t2) \<Rightarrow>
               (case next_is 58 t2 of
                  None \<Rightarrow> None
                | Some t3 \<Rightarrow>
                    (case read_value n t3 of
                       None \<Rightarrow> None
                     | Some (v, r) \<Rightarrow>
                         (case r of
                            [] \<Rightarrow> None
                          | c # r' \<Rightarrow>
                              (if c = 125 then Some ([(k, v)], r')
                               else if c = 44
                               then (case read_members n r' of
                                       None \<Rightarrow> None
                                     | Some (kvs, r2) \<Rightarrow> Some ((k, v) # kvs, r2))
                               else None))))))"

definition demo_loads :: "pystr \<Rightarrow> pyval option" where
  "demo_loads t =
     (case read_value (length t) t of
        Some (v, []) \<Rightarrow> Some v
      | _ \<Rightarrow> None)"

definition demo_libs :: libs where
  "demo_libs =
     \<lparr>json_dumps = (\<lambda>indent v. map of_nat (write_value v)),
      json_loads = demo_loads,
      fernet_encrypt = (\<lambda>k entropy data. k @ data),
      fernet_decrypt = (\<lambda>k token. if prefix k token then Some (drop (length k) token) else None),
      fernet_key_ok = (\<lambda>k. length k = 44),
      kdf = (\<lambda>password salt. take 43 (password @ salt @ replicate 43 0x41) @ [0x3D]),
      imread_ok = (\<lambda>file. True)\<rparr>"

definition demo_system :: system where
  "demo_system = \<lparr>student_id = py ''student1'', key = replicate 43 0x41 @ [0x3D]\<rparr>"

definition demo_state :: state where
  "demo_state =
     \<lparr>heap = (\<lambda>a. []), next_free = 0, video = [], audio = [], fs = Map.empty, trace = []\<rparr>"

text \<open>
  The reading of claim C7: no file or console action of the trace is done while the
  lock is held.
\<close>

definition io_outside_lock :: "action list \<Rightarrow> bool" where
  "io_outside_lock tr = (under_lock False tr = [])"

definition demo_now :: pystr where
  "demo_now = py ''2025-08-29 10:00:00''"

definition demo_valid_state :: state where
  "demo_valid_state =
     demo_state\<lparr>heap := (heap demo_state)
                  (0 := [(py ''id'', PStr (py ''e1'')), (py ''timestamp'', PStr (py ''2025-08-29'')),
                         (py ''data'', PStr (py ''noise''))]),
                next_free := 1\<rparr>"

definition demo_invalid_state :: state where
  "demo_invalid_state =
     demo_state\<lparr>heap := (heap demo_state)
                  (0 := [(py ''id'', PStr (py ''e1'')), (py ''timestamp'', PStr (py ''2025-08-29''))]),
                next_free := 1\<rparr>"

definition demo_audit_state :: state where
  "demo_audit_state =
     demo_state\<lparr>fs := [py ''screenshots'' \<mapsto>
                         Dir [py ''LEFT_1700000001.jpg'', py ''notes.txt'', py ''NO_FACE_1700000002.jpg'']]\<rparr>"







section \<open>The UTF-8 codec round trip\<close>

lemma unat_byte: "n < 256 \<Longrightarrow> unat (byte_of n) = n"
  by (simp add: byte_of_def unat_of_nat)

lemma cont_byte: "m < 64 \<Longrightarrow> is_cont (byte_of (128 + m))"
  by (simp add: is_cont_def unat_byte)

lemma decode1:
  assumes "a < 128"
  shows "utf8_decode (byte_of a # r) = cons_cp a (utf8_decode r)"
  using assms by (simp add: unat_byte)

lemma decode2:
  assumes "a < 32" "m < 64" "2 \<le> a"
  shows "utf8_decode (byte_of (192 + a) # byte_of (128 + m) # r) = cons_cp (a * 64 + m) (utf8_decode r)"
proof -
  have "unat (byte_of (192 + a)) = 192 + a" "unat (byte_of (128 + m)) = 128 + m"
    using assms by (simp_all add: unat_byte)
  moreover have "is_cont (byte_of (128 + m))" using assms by (simp add: cont_byte)
  moreover have "128 \<le> a * 64 + m" using assms by simp
  ultimately show ?thesis using assms by (simp add: Let_def)
qed

lemma decode3:
  assumes "a < 16" "m < 64" "k < 64" "2048 \<le> a * 4096 + m * 64 + k"
    "\<not> (55296 \<le> a * 4096 + m * 64 + k \<and> a * 4096 + m * 64 + k \<le> 57343)"
  shows "utf8_decode (byte_of (224 + a) # byte_of (128 + m) # byte_of (128 + k) # r)
         = cons_cp (a * 4096 + m * 64 + k) (utf8_decode r)"
proof -
  have "unat (byte_of (224 + a)) = 224 + a" "unat (byte_of (128 + m)) = 128 + m"
    "unat (byte_of (128 + k)) = 128 + k"
    using assms by (simp_all add: unat_byte)
  moreover have "is_cont (byte_of (128 + m))" "is_cont (byte_of (128 + k))"
    using assms by (simp_all add: cont_byte)
  ultimately show ?thesis using assms by (simp add: Let_def)
qed

lemma decode4:
  assumes "a < 8" "m < 64" "k < 64" "j < 64" "65536 \<le> a * 262144 + m * 4096 + k * 64 + j"
    "a * 262144 + m * 4096 + k * 64 + j \<le> 1114111"
  shows "utf8_decode (byte_of (240 + a) # byte_of (128 + m) # byte_of (128 + k) # byte_of (128 + j) # r)
         = cons_cp (a * 262144 + m * 4096 + k * 64 + j) (utf8_decode r)"
proof -
  have "unat (byte_of (240 + a)) = 240 + a" "unat (byte_of (128 + m)) = 128 + m"
    "unat (byte_of (128 + k)) = 128 + k" "unat (byte_of (128 + j)) = 128 + j"
    using assms by (simp_all add: unat_byte)
  moreover have "is_cont (byte_of (128 + m))" "is_cont (byte_of (128 + k))" "is_cont (byte_of (128 + j))"
    using assms by (simp_all add: cont_byte)
  ultimately show ?thesis using assms by (simp add: Let_def)
qed


lemma split3: "n div 4096 * 4096 + n div 64 mod 64 * 64 + n mod 64 = (n::nat)"
proof -
  define q A B C where "q = n div 64" and "A = q div 64" and "B = q mod 64" and "C = n mod 64"
  have h1: "A * 64 + B = q" by (simp add: A_def B_def)
  have h2: "q * 64 + C = n" by (simp add: q_def C_def)
  have e: "n div 4096 = A" by (simp add: A_def q_def div_mult2_eq)
  have "A * 4096 + B * 64 + C = n" using h1 h2 by linarith
  then show ?thesis unfolding e unfolding A_def B_def C_def q_def .
qed

lemma split4: "n div 262144 * 262144 + n div 4096 mod 64 * 4096 + n div 64 mod 64 * 64 + n mod 64 = (n::nat)"
proof -
  define q A B C where "q = n div 64" and "A = q div 4096" and "B = q div 64 mod 64" and "C = q mod 64"
  have h1: "A * 4096 + B * 64 + C = q" unfolding A_def B_def C_def by (rule split3)
  have h2: "q * 64 + n mod 64 = n" by (simp add: q_def)
  have e: "n div 262144 = A" "n div 4096 = q div 64" by (simp_all add: A_def q_def div_mult2_eq)
  have "A * 262144 + B * 4096 + C * 64 + n mod 64 = n" using h1 h2 by linarith
  then show ?thesis unfolding e unfolding A_def B_def C_def q_def .
qed

lemma b2: "(n::nat) < 2048 \<Longrightarrow> n div 64 < 32" by (simp add: div_less_iff_less_mult)
lemma b2': "128 \<le> (n::nat) \<Longrightarrow> 2 \<le> n div 64" by (simp add: less_eq_div_iff_mult_less_eq)
lemma b3: "(n::nat) < 65536 \<Longrightarrow> n div 4096 < 16" by (simp add: div_less_iff_less_mult)
lemma b4: "(n::nat) < 1114112 \<Longrightarrow> n div 262144 < 8" by (simp add: div_less_iff_less_mult)


lemma decode_encode_cp:
  assumes "scalar cp"
  shows "\<exists>bs. encode_cp cp = Inr bs \<and> (\<forall>r. utf8_decode (map byte_of bs @ r) = cons_cp cp (utf8_decode r))"
proof -
  consider "cp < 128" | "128 \<le> cp" "cp < 2048" | "2048 \<le> cp" "cp < 65536" | "65536 \<le> cp"
    by linarith
  then show ?thesis
  proof cases
    case 1
    then show ?thesis by (simp add: encode_cp_def decode1 del: utf8_decode.simps)
  next
    case 2
    have v: "cp div 64 * 64 + cp mod 64 = cp" by simp
    have "cp div 64 < 32" "cp mod 64 < 64" "2 \<le> cp div 64" using 2 by (simp_all add: b2 b2')
    from decode2[OF this] have "utf8_decode (byte_of (192 + cp div 64) # byte_of (128 + cp mod 64) # r)
        = cons_cp cp (utf8_decode r)" for r unfolding v .
    with 2 show ?thesis by (simp add: encode_cp_def del: utf8_decode.simps)
  next
    case 3
    note v = split3[of cp]
    have s: "\<not> (55296 \<le> cp \<and> cp \<le> 57343)" using assms by (simp add: scalar_def)
    have "cp div 4096 < 16" "cp div 64 mod 64 < 64" "cp mod 64 < 64" using 3 by (simp_all add: b3)
    from decode3[OF this, unfolded v, OF 3(1) s]
    have "utf8_decode (byte_of (224 + cp div 4096) # byte_of (128 + cp div 64 mod 64) # byte_of (128 + cp mod 64) # r)
        = cons_cp cp (utf8_decode r)" for r .
    with 3 s show ?thesis by (simp add: encode_cp_def del: utf8_decode.simps)
  next
    case 4
    note v = split4[of cp]
    have u: "cp < 1114112" "cp \<le> 1114111" using assms by (simp_all add: scalar_def)
    have "cp div 262144 < 8" "cp div 4096 mod 64 < 64" "cp div 64 mod 64 < 64" "cp mod 64 < 64"
      using u by (simp_all add: b4)
    from decode4[OF this, unfolded v, OF 4 u(2)]
    have "utf8_decode (byte_of (240 + cp div 262144) # byte_of (128 + cp div 4096 mod 64)
            # byte_of (128 + cp div 64 mod 64) # byte_of (128 + cp mod 64) # r)
        = cons_cp cp (utf8_decode r)" for r .
    with 4 show ?thesis by (simp add: encode_cp_def del: utf8_decode.simps)
  qed
qed

lemma utf8_roundtrip:
  "list_all scalar s \<Longrightarrow> \<exists>bs. utf8_encode s = Inr bs \<and> utf8_decode bs = Inr s"
proof (induction s)
  case Nil
  then show ?case by simp
next
  case (Cons c cs)
  then obtain r where r: "utf8_encode cs = Inr r" "utf8_decode r = Inr cs" by auto
  from Cons.prems obtain bs where bs: "encode_cp c = Inr bs"
    "utf8_decode (map byte_of bs @ r) = cons_cp c (utf8_decode r)"
    using decode_encode_cp[of c] by auto
  with r show ?case by (simp add: cons_cp_def del: utf8_decode.simps)
qed


text \<open>ASCII text is its own UTF-8 encoding.\<close>

lemma ascii_unat: "unat (a :: ascii) < 128"
  using unsigned_less[of a, where ?'a = nat] by simp

lemma ascii_ucast: "ucast (a :: ascii) = byte_of (unat a)"
  by (simp add: byte_of_def)

lemma decode1_ascii: "utf8_decode (ucast (a :: ascii) # r) = cons_cp (unat a) (utf8_decode r)"
  unfolding ascii_ucast by (rule decode1) (rule ascii_unat)

lemma utf8_decode_ascii: "utf8_decode (map ucast (t :: ascii list)) = Inr (str_of_ascii t)"
proof (induction t)
  case Nil
  then show ?case by (simp add: str_of_ascii_def)
next
  case (Cons a t)
  then show ?case
    by (simp add: decode1_ascii cons_cp_def str_of_ascii_def del: utf8_decode.simps)
qed


section \<open>Properties of the redactor\<close>

lemma replace_from_starts:
  assumes "hd new \<notin> set u" "new \<noteq> []" "old \<noteq> []"
  shows "prefix u (replace_from old new s) \<Longrightarrow> prefix u s"
  using assms(1)
proof (induction u arbitrary: s)
  case Nil
  then show ?case by simp
next
  case (Cons x u)
  show ?case
  proof (cases s)
    case Nil
    with Cons.prems show ?thesis by simp
  next
    case (Cons c cs)
    show ?thesis
    proof (cases "prefix old (c # cs)")
      case True
      with Cons Cons.prems assms(2,3) show ?thesis
        by (cases new) auto
    next
      case False
      with Cons Cons.prems Cons.IH[of cs] show ?thesis by auto
    qed
  qed
qed

text \<open>
  When the first characters of marker and placeholder do not occur in each other, the
  output of a replacement holds no occurrence of the marker: none starts inside a
  placeholder, and one that starts in copied text would have been found in the input.
\<close>

lemma replace_from_free:
  "old \<noteq> [] \<Longrightarrow> new \<noteq> [] \<Longrightarrow> hd old \<notin> set new \<Longrightarrow> hd new \<notin> set old
   \<Longrightarrow> \<not> prefix old (drop i (replace_from old new s))"
proof (induction old new s arbitrary: i rule: replace_from.induct)
  case (1 old new)
  then show ?case by simp
next
  case (2 old new c cs)
  note nonempty = "2.prems"(1,2)
  show ?case
  proof (cases "prefix old (c # cs)")
    case True
    define R where "R = replace_from old new (drop (length old) (c # cs))"
    have res: "replace_from old new (c # cs) = new @ R"
      using True nonempty by (simp add: R_def)
    have IH: "\<not> prefix old (drop j R)" for j
      unfolding R_def using "2.IH"(1)[of j] True "2.prems" by simp
    show ?thesis
    proof (cases "i < length new")
      case inside: True
      then have "drop i (new @ R) = (new ! i) # drop (Suc i) new @ R"
        by (simp add: Cons_nth_drop_Suc)
      moreover have "new ! i \<in> set new" using inside by simp
      ultimately show ?thesis
        using "2.prems"(3) nonempty res by (cases old) (auto)
    next
      case False
      then have "drop i (new @ R) = drop (i - length new) R" by simp
      with IH res show ?thesis by simp
    qed
  next
    case False
    define R where "R = replace_from old new cs"
    have res: "replace_from old new (c # cs) = c # R"
      using False by (simp add: R_def)
    have IH: "\<not> prefix old (drop j R)" for j
      unfolding R_def using "2.IH"(2)[of j] False "2.prems" by simp
    show ?thesis
    proof (cases i)
      case 0
      show ?thesis
      proof
        assume "prefix old (drop i (replace_from old new (c # cs)))"
        then have p: "prefix old (c # R)" using 0 res by simp
        obtain x xs where old: "old = x # xs" using nonempty by (cases old) auto
        from p old have "x = c" "prefix xs R" by auto
        moreover have "hd new \<notin> set xs" using "2.prems"(4) old by simp
        ultimately have "prefix xs cs"
          using replace_from_starts[of new xs old cs] nonempty unfolding R_def by simp
        with \<open>x = c\<close> old False show False by simp
      qed
    next
      case (Suc j)
      with IH[of j] res show ?thesis by simp
    qed
  qed
qed

lemma replace_from_absent:
  "(\<And>i. \<not> prefix old (drop i s)) \<Longrightarrow> replace_from old new s = s"
proof (induction s)
  case Nil
  then show ?case by simp
next
  case (Cons c cs)
  have "\<not> prefix old (c # cs)" using Cons.prems[of 0] by simp
  moreover have "\<not> prefix old (drop i cs)" for i using Cons.prems[of "Suc i"] by simp
  ultimately show ?case using Cons.IH by simp
qed

text \<open>
  Claim C5. For every string \<open>X\<close>, redacting a second time changes nothing:
  \<open>redact (redact X) = redact X\<close>. The placeholder \<open>[REDACTED]\<close> shares no character
  with the marker \<open>secret\<close>, so no new marker can form across a replacement boundary.
\<close>

theorem redact_idempotent: "redact (redact X) = redact X"
proof -
  have "\<not> prefix (py ''secret'') (drop i (replace_from (py ''secret'') (py ''[REDACTED]'') X))" for i
    by (rule replace_from_free) (simp_all add: py_def)
  then show ?thesis
    by (simp add: redact_def str_replace_def py_def replace_from_absent)
qed

section \<open>The schema gate of the logger\<close>

lemma validate_missing:
  "k \<in> set [py ''id'', py ''timestamp'', py ''data''] \<Longrightarrow> map_of event k = None
   \<Longrightarrow> \<not> validate event"
  by (auto simp: validate_def)

text \<open>
  Claim C4. When the dict lacks one of the keys \<open>id\<close>, \<open>timestamp\<close>, \<open>data\<close>,
  \<open>log_event\<close> returns normally and has only printed the warning: the files (the
  durable log among them), the dict, every other object and the store are as before.
\<close>

theorem log_event_invalid_skips:
  assumes "k \<in> set [py ''id'', py ''timestamp'', py ''data'']"
    and "map_of (heap s a) k = None"
  shows "log_event L ky logfile a now entropy s =
           (s\<lparr>trace := trace s @ [Print (py ''[SecureLogger] Invalid event schema. Skipping log.'')]\<rparr>,
            None)"
  using validate_missing[OF assms] by (simp add: log_event_def emit_def)

theorem log_event_invalid_skips_witness:
  "py ''data'' \<in> set [py ''id'', py ''timestamp'', py ''data'']
   \<and> map_of (heap demo_invalid_state 0) (py ''data'') = None
   \<and> log_event demo_libs [1, 2, 3] (py ''secure_logs.jsonl'') 0 demo_now [] demo_invalid_state =
         (demo_invalid_state\<lparr>trace := trace demo_invalid_state
             @ [Print (py ''[SecureLogger] Invalid event schema. Skipping log.'')]\<rparr>, None)"
proof -
  have a: "py ''data'' \<in> set [py ''id'', py ''timestamp'', py ''data'']" by simp
  have b: "map_of (heap demo_invalid_state 0) (py ''data'') = None"
    by (simp add: demo_invalid_state_def demo_state_def py_def)
  from a b log_event_invalid_skips[OF a b] show ?thesis by blast
qed

section \<open>The logger stamps the caller's dict\<close>

lemma map_of_update_other:
  "k' \<noteq> k \<Longrightarrow> map_of (AList.update k v al) k' = map_of al k'"
  by (simp add: update_conv')

lemma map_of_update_same: "map_of (AList.update k v al) k = Some v"
  by (simp add: update_conv')

lemma append_bytes_heap: "append_bytes p b s = (s', r) \<Longrightarrow> heap s' = heap s"
  by (auto simp: append_bytes_def emit_def split: option.splits node.splits)

lemma append_bytes_store:
  "append_bytes p b s = (s', r) \<Longrightarrow> video s' = video s \<and> audio s' = audio s \<and> next_free s' = next_free s"
  by (auto simp: append_bytes_def emit_def split: option.splits node.splits)

lemma log_event_heap:
  assumes "validate (heap s a)" and "log_event L ky logfile a now entropy s = (s', r)"
  shows "heap s' = (heap s)(a := AList.update (py ''logged_at'') (PStr now) (heap s a))"
proof -
  let ?s1 = "s\<lparr>heap := (heap s)(a := AList.update (py ''logged_at'') (PStr now) (heap s a))\<rparr>"
  show ?thesis
  proof (cases "encrypt L ky entropy
      (str_of_ascii (json_dumps L None (PDict (AList.update (py ''logged_at'') (PStr now) (heap s a)))))")
    case (Inl e)
    with assms show ?thesis by (auto simp: log_event_def Let_def)
  next
    case (Inr encrypted)
    obtain s2 r2 where ap: "append_bytes logfile (encrypted @ [0x0A]) ?s1 = (s2, r2)"
      by (cases "append_bytes logfile (encrypted @ [0x0A]) ?s1") auto
    from append_bytes_heap[OF ap] have "heap s2 = heap ?s1" .
    with assms Inr ap show ?thesis
      by (cases r2) (auto simp: log_event_def Let_def emit_def)
  qed
qed

lemma log_event_store:
  assumes "log_event L ky logfile a now entropy s = (s', r)"
  shows "video s' = video s \<and> audio s' = audio s \<and> next_free s' = next_free s"
proof (cases "validate (heap s a)")
  case False
  with assms show ?thesis by (auto simp: log_event_def emit_def)
next
  case True
  let ?s1 = "s\<lparr>heap := (heap s)(a := AList.update (py ''logged_at'') (PStr now) (heap s a))\<rparr>"
  show ?thesis
  proof (cases "encrypt L ky entropy
      (str_of_ascii (json_dumps L None (PDict (AList.update (py ''logged_at'') (PStr now) (heap s a)))))")
    case (Inl e)
    with assms True show ?thesis by (auto simp: log_event_def Let_def)
  next
    case (Inr encrypted)
    obtain s2 r2 where ap: "append_bytes logfile (encrypted @ [0x0A]) ?s1 = (s2, r2)"
      by (cases "append_bytes logfile (encrypted @ [0x0A]) ?s1") auto
    from append_bytes_store[OF ap] assms True Inr ap show ?thesis
      by (cases r2) (auto simp: log_event_def Let_def emit_def)
  qed
qed

lemma append_bytes_ok:
  "append_bytes p b s = (s', None) \<Longrightarrow>
     s' = s\<lparr>fs := (fs s)(p \<mapsto> File (content p s @ b)), trace := trace s @ [FileAppend p b]\<rparr>"
  by (auto simp: append_bytes_def emit_def content_def split: option.splits node.splits)

lemma append_bytes_fail: "append_bytes p b s = (s', Some e) \<Longrightarrow> s' = s"
  by (auto simp: append_bytes_def split: option.splits node.splits)

text \<open>
  What a call on a valid dict writes: when it returns normally, one record was appended
  to the log file, the encryption of the serialization of the dict with its stamp, and
  a newline; when it raises, the files and the console are as before.
\<close>

lemma log_event_record:
  assumes "validate (heap s a)" and "log_event L ky logfile a now entropy s = (s', r)"
  shows "(r = None \<longrightarrow>
           (\<exists>token. encrypt L ky entropy (str_of_ascii (json_dumps L None
                        (PDict (AList.update (py ''logged_at'') (PStr now) (heap s a))))) = Inr token
              \<and> fs s' = (fs s)(logfile \<mapsto> File (content logfile s @ token @ [0x0A]))
              \<and> trace s' = trace s @
                    [FileAppend logfile (token @ [0x0A]),
                     Print (py ''[SecureLogger] Event logged securely at '' @ now)]))
       \<and> (r \<noteq> None \<longrightarrow> fs s' = fs s \<and> trace s' = trace s)"
proof -
  let ?ev = "AList.update (py ''logged_at'') (PStr now) (heap s a)"
  let ?s1 = "s\<lparr>heap := (heap s)(a := ?ev)\<rparr>"
  show ?thesis
  proof (cases "encrypt L ky entropy (str_of_ascii (json_dumps L None (PDict ?ev)))")
    case (Inl e)
    with assms show ?thesis by (auto simp: log_event_def Let_def)
  next
    case (Inr encrypted)
    obtain s2 r2 where ap: "append_bytes logfile (encrypted @ [0x0A]) ?s1 = (s2, r2)"
      by (cases "append_bytes logfile (encrypted @ [0x0A]) ?s1") auto
    show ?thesis
    proof (cases r2)
      case None
      from append_bytes_ok[OF ap[unfolded None]]
      have s2: "s2 = ?s1\<lparr>fs := (fs s)(logfile \<mapsto> File (content logfile s @ encrypted @ [0x0A])),
                          trace := trace s @ [FileAppend logfile (encrypted @ [0x0A])]\<rparr>"
        by (simp add: content_def)
      from assms Inr ap None
      have "s' = emit (Print (py ''[SecureLogger] Event logged securely at '' @ now)) s2" "r = None"
        by (auto simp: log_event_def Let_def)
      with s2 Inr show ?thesis by (simp add: emit_def)
    next
      case (Some e)
      from append_bytes_fail[OF ap[unfolded Some]] have "s2 = ?s1" .
      moreover from assms Inr ap Some have "s' = s2" "r = Some e"
        by (auto simp: log_event_def Let_def)
      ultimately show ?thesis by simp
    qed
  qed
qed

lemma produce_unfold:
  "produce L sys is_video ident ts text now entropy s =
     (case log_event L (key sys) (py ''secure_logs.jsonl'') (next_free s) now entropy
             (s\<lparr>next_free := Suc (next_free s),
                heap := (heap s)(next_free s :=
                   [(py ''id'', PStr ident), (py ''timestamp'', PStr ts),
                    (py ''data'', PStr (redact text))])\<rparr>) of
        (s3, Some e) \<Rightarrow> (s3, Some e)
      | (s3, None) \<Rightarrow>
          (emit LockRelease
             (if is_video
              then (emit LockAcquire (sync (next_free s) s3))\<lparr>video := video s3 @ [next_free s]\<rparr>
              else (emit LockAcquire (sync (next_free s) s3))\<lparr>audio := audio s3 @ [next_free s]\<rparr>),
           None))"
  by (simp add: produce_def new_event_def Let_def py_def emit_def sync_def
           split: prod.splits option.splits)

lemma produce_result:
  assumes "produce L sys is_video ident ts text now entropy s = (s', None)"
  shows "heap s' = (heap s)(next_free s := stamped ident ts text now)
       \<and> video s' = (if is_video then video s @ [next_free s] else video s)
       \<and> audio s' = (if is_video then audio s else audio s @ [next_free s])
       \<and> next_free s' = Suc (next_free s)
       \<and> (\<exists>token. encrypt L (key sys) entropy (str_of_ascii (json_dumps L None
                      (PDict (stamped ident ts text now)))) = Inr token
            \<and> fs s' = (fs s)(py ''secure_logs.jsonl'' \<mapsto>
                          File (content (py ''secure_logs.jsonl'') s @ token @ [0x0A])))"
proof -
  let ?a = "next_free s"
  let ?ev = "[(py ''id'', PStr ident), (py ''timestamp'', PStr ts), (py ''data'', PStr (redact text))]"
  let ?s2 = "s\<lparr>next_free := Suc ?a, heap := (heap s)(?a := ?ev)\<rparr>"
  obtain s3 r where le: "log_event L (key sys) (py ''secure_logs.jsonl'') ?a now entropy ?s2 = (s3, r)"
    by (cases "log_event L (key sys) (py ''secure_logs.jsonl'') ?a now entropy ?s2") auto
  have valid: "validate (heap ?s2 ?a)"
    by (simp add: validate_def py_def)
  have r: "r = None"
    using assms le unfolding produce_unfold by (cases r) auto
  have upd: "AList.update (py ''logged_at'') (PStr now) (heap ?s2 ?a) = stamped ident ts text now"
    by (simp add: stamped_def py_def)
  with log_event_heap[OF valid le]
  have h3: "heap s3 = (heap s)(?a := stamped ident ts text now)"
    by simp
  from log_event_store[OF le]
  have st3: "video s3 = video s" "audio s3 = audio s" "next_free s3 = Suc ?a" by simp_all
  from assms le r have s': "s' = emit LockRelease
      (if is_video then (emit LockAcquire (sync ?a s3))\<lparr>video := video s3 @ [?a]\<rparr>
       else (emit LockAcquire (sync ?a s3))\<lparr>audio := audio s3 @ [?a]\<rparr>)"
    unfolding produce_unfold by simp
  then have fs': "fs s' = fs s3" by (simp add: emit_def sync_def)
  have c2: "content (py ''secure_logs.jsonl'') ?s2 = content (py ''secure_logs.jsonl'') s"
    by (simp add: content_def)
  from log_event_record[OF valid le] r upd
  obtain token where "encrypt L (key sys) entropy (str_of_ascii (json_dumps L None
                      (PDict (stamped ident ts text now)))) = Inr token"
    and "fs s3 = (fs s)(py ''secure_logs.jsonl'' \<mapsto>
                          File (content (py ''secure_logs.jsonl'') s @ token @ [0x0A]))"
    by (auto simp: c2)
  with fs' have rec: "\<exists>token. encrypt L (key sys) entropy (str_of_ascii (json_dumps L None
                      (PDict (stamped ident ts text now)))) = Inr token
            \<and> fs s' = (fs s)(py ''secure_logs.jsonl'' \<mapsto>
                          File (content (py ''secure_logs.jsonl'') s @ token @ [0x0A]))"
    by auto
  from s' h3 st3 have "heap s' = (heap s)(next_free s := stamped ident ts text now)
       \<and> video s' = (if is_video then video s @ [next_free s] else video s)
       \<and> audio s' = (if is_video then audio s else audio s @ [next_free s])
       \<and> next_free s' = Suc (next_free s)"
    by (simp add: emit_def sync_def)
  with rec show ?thesis by blast
qed

text \<open>
  Claim C10. For a valid dict at address \<open>a\<close>, \<open>log_event\<close> writes \<open>logged_at\<close>
  into that very object, whether or not the rest of the call succeeds: every other key
  keeps its value, no other object changes, and the caller reads the stamp through its
  own reference. The stamp is set before encryption: on a normal return the record
  appended to the log file is the encryption of the serialization of the dict as the
  caller now sees it, stamp included; when the call raises, nothing was written. The
  producer then appends the same address to the store, so the aggregate that the next
  tick serializes shows the stamped dict, the one whose encryption is in the log.
\<close>

theorem log_event_stamps_caller_dict:
  "(validate (heap s a) \<and> log_event L ky logfile a now entropy s = (s1, r) \<longrightarrow>
      heap s1 a = AList.update (py ''logged_at'') (PStr now) (heap s a)
    \<and> map_of (heap s1 a) (py ''logged_at'') = Some (PStr now)
    \<and> map_of (heap s1 a) (py ''id'') = map_of (heap s a) (py ''id'')
    \<and> map_of (heap s1 a) (py ''timestamp'') = map_of (heap s a) (py ''timestamp'')
    \<and> map_of (heap s1 a) (py ''data'') = map_of (heap s a) (py ''data'')
    \<and> (\<forall>b. b \<noteq> a \<longrightarrow> heap s1 b = heap s b)
    \<and> (r = None \<longrightarrow>
          (\<exists>token. encrypt L ky entropy (str_of_ascii (json_dumps L None (PDict (heap s1 a))))
                      = Inr token
             \<and> fs s1 = (fs s)(logfile \<mapsto> File (content logfile s @ token @ [0x0A]))
             \<and> trace s1 = trace s @
                   [FileAppend logfile (token @ [0x0A]),
                    Print (py ''[SecureLogger] Event logged securely at '' @ now)]))
    \<and> (r \<noteq> None \<longrightarrow> fs s1 = fs s \<and> trace s1 = trace s))
   \<and> (0 < score \<and> run_camera_step L sys score t ts now entropy s = (s2, None) \<longrightarrow>
      video s2 = video s @ [next_free s]
    \<and> map_of (heap s2 (next_free s)) (py ''logged_at'') = Some (PStr now)
    \<and> (\<exists>older. dict_get (aggregate s2) (py ''video'') (PList [])
                   = Inr (PList (older @ [PDict (heap s2 (next_free s))])))
    \<and> (\<exists>token. encrypt L (key sys) entropy
                    (str_of_ascii (json_dumps L None (PDict (heap s2 (next_free s))))) = Inr token
           \<and> fs s2 = (fs s)(py ''secure_logs.jsonl'' \<mapsto>
                         File (content (py ''secure_logs.jsonl'') s @ token @ [0x0A]))))"
proof (intro conjI impI)
  assume h: "validate (heap s a) \<and> log_event L ky logfile a now entropy s = (s1, r)"
  then have hp: "heap s1 = (heap s)(a := AList.update (py ''logged_at'') (PStr now) (heap s a))"
    using log_event_heap by blast
  from h have rec: "(r = None \<longrightarrow>
           (\<exists>token. encrypt L ky entropy (str_of_ascii (json_dumps L None
                        (PDict (AList.update (py ''logged_at'') (PStr now) (heap s a))))) = Inr token
              \<and> fs s1 = (fs s)(logfile \<mapsto> File (content logfile s @ token @ [0x0A]))
              \<and> trace s1 = trace s @
                    [FileAppend logfile (token @ [0x0A]),
                     Print (py ''[SecureLogger] Event logged securely at '' @ now)]))
       \<and> (r \<noteq> None \<longrightarrow> fs s1 = fs s \<and> trace s1 = trace s)"
    using log_event_record by blast
  show "heap s1 a = AList.update (py ''logged_at'') (PStr now) (heap s a)"
    by (simp add: hp)
  show "map_of (heap s1 a) (py ''logged_at'') = Some (PStr now)"
    by (simp add: hp map_of_update_same)
  show "map_of (heap s1 a) (py ''id'') = map_of (heap s a) (py ''id'')"
    by (simp add: hp map_of_update_other py_def)
  show "map_of (heap s1 a) (py ''timestamp'') = map_of (heap s a) (py ''timestamp'')"
    by (simp add: hp map_of_update_other py_def)
  show "map_of (heap s1 a) (py ''data'') = map_of (heap s a) (py ''data'')"
    by (simp add: hp map_of_update_other py_def)
  show "\<forall>b. b \<noteq> a \<longrightarrow> heap s1 b = heap s b"
    by (simp add: hp)
  have at: "heap s1 a = AList.update (py ''logged_at'') (PStr now) (heap s a)"
    by (simp add: hp)
  { assume "r = None"
    with rec show "\<exists>token. encrypt L ky entropy (str_of_ascii (json_dumps L None (PDict (heap s1 a))))
                      = Inr token
             \<and> fs s1 = (fs s)(logfile \<mapsto> File (content logfile s @ token @ [0x0A]))
             \<and> trace s1 = trace s @
                   [FileAppend logfile (token @ [0x0A]),
                    Print (py ''[SecureLogger] Event logged securely at '' @ now)]"
      unfolding at by blast }
  { assume "r \<noteq> None"
    with rec show "fs s1 = fs s" and "trace s1 = trace s" by blast+ }
next
  let ?ident = "student_id sys @ py ''_cam_'' @ show_int t"
  let ?text = "py ''Camera suspicion score: '' @ show_int score"
  assume h: "0 < score \<and> run_camera_step L sys score t ts now entropy s = (s2, None)"
  then have "produce L sys True ?ident ts ?text now entropy s = (s2, None)"
    by (auto simp: run_camera_step_def)
  from produce_result[OF this]
  have hp: "heap s2 = (heap s)(next_free s := stamped ?ident ts ?text now)"
    and v: "video s2 = video s @ [next_free s]"
    and rec: "\<exists>token. encrypt L (key sys) entropy (str_of_ascii (json_dumps L None
                      (PDict (stamped ?ident ts ?text now)))) = Inr token
            \<and> fs s2 = (fs s)(py ''secure_logs.jsonl'' \<mapsto>
                          File (content (py ''secure_logs.jsonl'') s @ token @ [0x0A]))"
    by simp_all
  show "video s2 = video s @ [next_free s]" by (rule v)
  show "map_of (heap s2 (next_free s)) (py ''logged_at'') = Some (PStr now)"
    by (simp add: hp stamped_def py_def)
  show "\<exists>older. dict_get (aggregate s2) (py ''video'') (PList [])
                   = Inr (PList (older @ [PDict (heap s2 (next_free s))]))"
    by (simp add: aggregate_def dict_get_def v)
  have "heap s2 (next_free s) = stamped ?ident ts ?text now" by (simp add: hp)
  with rec show "\<exists>token. encrypt L (key sys) entropy
                    (str_of_ascii (json_dumps L None (PDict (heap s2 (next_free s))))) = Inr token
           \<and> fs s2 = (fs s)(py ''secure_logs.jsonl'' \<mapsto>
                         File (content (py ''secure_logs.jsonl'') s @ token @ [0x0A]))"
    by simp
qed

theorem log_event_stamps_caller_dict_witness:
  "(validate (heap demo_valid_state 0)
      \<and> log_event demo_libs (key demo_system) (py ''secure_logs.jsonl'') 0 demo_now [] demo_valid_state
          = (fst (log_event demo_libs (key demo_system) (py ''secure_logs.jsonl'') 0 demo_now []
                    demo_valid_state), None))
   \<and> map_of (heap (fst (log_event demo_libs (key demo_system) (py ''secure_logs.jsonl'') 0 demo_now []
                          demo_valid_state)) 0) (py ''logged_at'') = Some (PStr demo_now)
   \<and> (\<exists>token. encrypt demo_libs (key demo_system) []
          (str_of_ascii (json_dumps demo_libs None
             (PDict (heap (fst (log_event demo_libs (key demo_system) (py ''secure_logs.jsonl'') 0
                                  demo_now [] demo_valid_state)) 0)))) = Inr token
        \<and> fs (fst (log_event demo_libs (key demo_system) (py ''secure_logs.jsonl'') 0 demo_now []
                      demo_valid_state))
            = (fs demo_valid_state)(py ''secure_logs.jsonl'' \<mapsto>
                 File (content (py ''secure_logs.jsonl'') demo_valid_state @ token @ [0x0A])))
   \<and> ((0::int) < 2
      \<and> run_camera_step demo_libs demo_system 2 17 demo_now demo_now [] demo_valid_state
          = (fst (run_camera_step demo_libs demo_system 2 17 demo_now demo_now [] demo_valid_state),
             None))
   \<and> video (fst (run_camera_step demo_libs demo_system 2 17 demo_now demo_now [] demo_valid_state))
        = video demo_valid_state @ [next_free demo_valid_state]
   \<and> map_of (heap (fst (run_camera_step demo_libs demo_system 2 17 demo_now demo_now []
                          demo_valid_state)) (next_free demo_valid_state)) (py ''logged_at'')
        = Some (PStr demo_now)"
proof -
  let ?X = "log_event demo_libs (key demo_system) (py ''secure_logs.jsonl'') 0 demo_now []
              demo_valid_state"
  let ?Y = "run_camera_step demo_libs demo_system 2 17 demo_now demo_now [] demo_valid_state"
  have v: "validate (heap demo_valid_state 0)"
    by (simp add: validate_def demo_valid_state_def demo_state_def py_def)
  have "snd ?X = None"
    by code_simp
  then have x: "?X = (fst ?X, None)"
    by (metis prod.collapse)
  have "snd ?Y = None"
    by code_simp
  then have y: "?Y = (fst ?Y, None)"
    by (metis prod.collapse)
  have a: "validate (heap demo_valid_state 0) \<and> ?X = (fst ?X, None)"
    using v x by (rule conjI)
  have pos: "(0::int) < 2" by simp
  have b: "(0::int) < 2 \<and> ?Y = (fst ?Y, None)"
    using pos y by (rule conjI)
  note th = log_event_stamps_caller_dict[of demo_valid_state 0 demo_libs "key demo_system"
      "py ''secure_logs.jsonl''" demo_now "[]" "fst ?X" None 2 demo_system 17 demo_now "fst ?Y"]
  note c1 = th[THEN conjunct1, THEN mp, OF a]
  note c2 = th[THEN conjunct2, THEN mp, OF b]
  have l: "map_of (heap (fst ?X) 0) (py ''logged_at'') = Some (PStr demo_now)"
    using c1 by (elim conjE)
  from c1 have "None = (None :: exn option) \<longrightarrow>
     (\<exists>token. encrypt demo_libs (key demo_system) []
          (str_of_ascii (json_dumps demo_libs None (PDict (heap (fst ?X) 0)))) = Inr token
        \<and> fs (fst ?X) = (fs demo_valid_state)(py ''secure_logs.jsonl'' \<mapsto>
                 File (content (py ''secure_logs.jsonl'') demo_valid_state @ token @ [0x0A]))
        \<and> trace (fst ?X) = trace demo_valid_state @
                   [FileAppend (py ''secure_logs.jsonl'') (token @ [0x0A]),
                    Print (py ''[SecureLogger] Event logged securely at '' @ demo_now)])"
    by (elim conjE)
  then have f: "\<exists>token. encrypt demo_libs (key demo_system) []
          (str_of_ascii (json_dumps demo_libs None (PDict (heap (fst ?X) 0)))) = Inr token
        \<and> fs (fst ?X) = (fs demo_valid_state)(py ''secure_logs.jsonl'' \<mapsto>
                 File (content (py ''secure_logs.jsonl'') demo_valid_state @ token @ [0x0A]))"
    by blast
  have w: "video (fst ?Y) = video demo_valid_state @ [next_free demo_valid_state]"
    using c2 by (elim conjE)
  have k: "map_of (heap (fst ?Y) (next_free demo_valid_state)) (py ''logged_at'') = Some (PStr demo_now)"
    using c2 by (elim conjE)
  show ?thesis
    by (intro conjI) (rule v x l f pos y w k)+
qed

section \<open>The cipher wrapper\<close>

lemma utf8_encode_error: "utf8_encode s = Inl e \<Longrightarrow> e = UnicodeEncodeError"
  by (induction s arbitrary: e)
     (auto simp: encode_cp_def split: sum.splits if_splits)

lemma utf8_encode_surrogate:
  "c \<in> set s \<Longrightarrow> 0xD800 \<le> c \<Longrightarrow> c \<le> 0xDFFF \<Longrightarrow> \<exists>e. utf8_encode s = Inl e"
proof (induction s)
  case Nil
  then show ?case by simp
next
  case (Cons x xs)
  show ?case
  proof (cases "x = c")
    case True
    with Cons.prems show ?thesis by (simp add: encode_cp_def)
  next
    case False
    with Cons obtain e where "utf8_encode xs = Inl e" by auto
    then show ?thesis by (simp split: sum.splits)
  qed
qed

text \<open>
  Claim C2, amended. For a key under which the Fernet primitive decrypts what it
  encrypted, and a plaintext of Unicode scalar values, \<open>decrypt (encrypt P) = P\<close>.
  A plaintext with a lone surrogate never reaches the cipher: \<open>encrypt\<close> raises
  \<open>UnicodeEncodeError\<close>.
\<close>

theorem decrypt_encrypt_roundtrip:
  "((\<forall>entropy data. fernet_decrypt L k (fernet_encrypt L k entropy data) = Some data)
      \<and> list_all scalar P
    \<longrightarrow> (\<exists>token. encrypt L k entropy P = Inr token \<and> decrypt L k token = Inr P))
   \<and> ((\<exists>c \<in> set P. 0xD800 \<le> c \<and> c \<le> 0xDFFF)
    \<longrightarrow> encrypt L k entropy P = Inl UnicodeEncodeError)"
proof (intro conjI impI)
  assume h: "(\<forall>entropy data. fernet_decrypt L k (fernet_encrypt L k entropy data) = Some data)
      \<and> list_all scalar P"
  then obtain bs where bs: "utf8_encode P = Inr bs" "utf8_decode bs = Inr P"
    using utf8_roundtrip[of P] by auto
  with h show "\<exists>token. encrypt L k entropy P = Inr token \<and> decrypt L k token = Inr P"
    by (simp add: encrypt_def decrypt_def)
next
  assume "\<exists>c \<in> set P. 0xD800 \<le> c \<and> c \<le> 0xDFFF"
  then obtain e where e: "utf8_encode P = Inl e"
    using utf8_encode_surrogate by blast
  with utf8_encode_error[OF e] show "encrypt L k entropy P = Inl UnicodeEncodeError"
    by (simp add: encrypt_def)
qed

theorem decrypt_encrypt_roundtrip_witness:
  "((\<forall>entropy data. fernet_decrypt demo_libs [1, 2, 3]
        (fernet_encrypt demo_libs [1, 2, 3] entropy data) = Some data)
      \<and> list_all scalar [0x41, 0xE9, 0x20AC, 0x1F600])
   \<and> (\<exists>token. encrypt demo_libs [1, 2, 3] [] [0x41, 0xE9, 0x20AC, 0x1F600] = Inr token
          \<and> decrypt demo_libs [1, 2, 3] token = Inr [0x41, 0xE9, 0x20AC, 0x1F600])
   \<and> (\<exists>c \<in> set [0x41, 0xDC00 :: nat]. 0xD800 \<le> c \<and> c \<le> 0xDFFF)
   \<and> encrypt demo_libs [1, 2, 3] [] [0x41, 0xDC00] = Inl UnicodeEncodeError"
proof -
  have a: "(\<forall>entropy data. fernet_decrypt demo_libs [1, 2, 3]
        (fernet_encrypt demo_libs [1, 2, 3] entropy data) = Some data)
      \<and> list_all scalar [0x41, 0xE9, 0x20AC, 0x1F600]"
    by (simp add: demo_libs_def scalar_def)
  have b: "\<exists>c \<in> set [0x41, 0xDC00 :: nat]. 0xD800 \<le> c \<and> c \<le> 0xDFFF"
    by simp
  from a b decrypt_encrypt_roundtrip[of demo_libs "[1, 2, 3]" "[0x41, 0xE9, 0x20AC, 0x1F600]" "[]"]
    decrypt_encrypt_roundtrip[of demo_libs "[1, 2, 3]" "[0x41, 0xDC00]" "[]"]
  show ?thesis by blast
qed

theorem encrypt_lone_surrogate_counterexample:
  "\<not> (\<exists>token. encrypt demo_libs [1, 2, 3] [] [0xD800] = Inr token
          \<and> decrypt demo_libs [1, 2, 3] token = Inr [0xD800])"
  by (simp add: encrypt_def encode_cp_def)

section \<open>The persistence tick and the lock\<close>

lemma aggregate_emit [simp]: "aggregate (emit a s) = aggregate s"
  by (simp add: aggregate_def emit_def)

lemma write_bytes_ok:
  "write_bytes p b s = (s', None) \<Longrightarrow>
     s' = s\<lparr>fs := (fs s)(p \<mapsto> File b), trace := trace s @ [FileWrite p b]\<rparr>"
  by (auto simp: write_bytes_def emit_def split: option.splits node.splits)

lemma read_bytes_ok:
  "read_bytes p s = (s', Inr b) \<Longrightarrow> fs s p = Some (File b) \<and> s' = s\<lparr>trace := trace s @ [FileRead p]\<rparr>"
  by (auto simp: read_bytes_def emit_def split: option.splits node.splits)

lemma save_body_ok:
  assumes "save_body L sys entropy s = (s', None)"
  shows "\<exists>token. encrypt L (key sys) entropy (str_of_ascii (json_dumps L (Some 2) (aggregate s))) = Inr token
     \<and> s' = s\<lparr>fs := (fs s)(py ''suspicions.json'' \<mapsto> File (map ucast (json_dumps L (Some 2) (aggregate s))),
                       py ''suspicions.json.encrypted'' \<mapsto> File token),
              trace := trace s @
                [FileWrite (py ''suspicions.json'') (map ucast (json_dumps L (Some 2) (aggregate s))),
                 FileRead (py ''suspicions.json''),
                 FileWrite (py ''suspicions.json.encrypted'') token,
                 Print (py ''[CortexShade] Suspicion log encrypted and saved.'')]\<rparr>"
proof -
  let ?text = "json_dumps L (Some 2) (aggregate s)"
  obtain s1 r1 where w1: "write_bytes (py ''suspicions.json'') (map ucast ?text) s = (s1, r1)"
    by (cases "write_bytes (py ''suspicions.json'') (map ucast ?text) s") auto
  with assms have r1: "r1 = None" by (cases r1) (auto simp: save_body_def)
  note s1 = write_bytes_ok[OF w1[unfolded r1]]
  have rd: "read_bytes (py ''suspicions.json'') s1 = (emit (FileRead (py ''suspicions.json'')) s1, Inr (map ucast ?text))"
    by (simp add: s1 read_bytes_def)
  let ?s2 = "emit (FileRead (py ''suspicions.json'')) s1"
  obtain token where tk: "encrypt L (key sys) entropy (str_of_ascii ?text) = Inr token"
    using assms w1 r1 rd
    by (cases "encrypt L (key sys) entropy (str_of_ascii ?text)")
       (auto simp: save_body_def utf8_decode_ascii)
  obtain s3 r3 where w3: "write_bytes (py ''suspicions.json.encrypted'') token ?s2 = (s3, r3)"
    by (cases "write_bytes (py ''suspicions.json.encrypted'') token ?s2") auto
  with assms w1 r1 rd tk have r3: "r3 = None"
    by (cases r3) (auto simp: save_body_def utf8_decode_ascii)
  note s3 = write_bytes_ok[OF w3[unfolded r3]]
  from assms w1 r1 rd tk w3 r3
  have "s' = emit (Print (py ''[CortexShade] Suspicion log encrypted and saved.'')) s3"
    by (auto simp: save_body_def utf8_decode_ascii)
  with s3 s1 tk show ?thesis
    by (auto simp: emit_def)
qed

lemma tick_ok:
  assumes "encrypt_and_save_tick L sys entropy s = (s', None)"
  shows "\<exists>token. encrypt L (key sys) entropy (str_of_ascii (json_dumps L (Some 2) (aggregate s))) = Inr token
     \<and> fs s' = (fs s)(py ''suspicions.json'' \<mapsto> File (map ucast (json_dumps L (Some 2) (aggregate s))),
                       py ''suspicions.json.encrypted'' \<mapsto> File token)
     \<and> heap s' = heap s \<and> video s' = video s \<and> audio s' = audio s
     \<and> trace s' = trace s @
                [LockAcquire,
                 FileWrite (py ''suspicions.json'') (map ucast (json_dumps L (Some 2) (aggregate s))),
                 FileRead (py ''suspicions.json''),
                 FileWrite (py ''suspicions.json.encrypted'') token,
                 Print (py ''[CortexShade] Suspicion log encrypted and saved.''),
                 LockRelease]"
proof -
  obtain s1 where b: "save_body L sys entropy (emit LockAcquire s) = (s1, None)" and s': "s' = emit LockRelease s1"
    using assms by (auto simp: encrypt_and_save_tick_def split: prod.splits)
  from save_body_ok[OF b] s' show ?thesis
    by (auto simp: emit_def aggregate_def)
qed

text \<open>
  Claim C7, amended. A tick that succeeds takes the lock first and releases it last:
  serializing the store, writing the working file, reading it back, encrypting, writing
  the snapshot file and printing are all done while the lock is held, and the tick does
  nothing outside it.
\<close>

theorem tick_holds_lock_throughout:
  assumes "encrypt_and_save_tick L sys entropy s = (s', None)"
  shows "\<exists>token. encrypt L (key sys) entropy (str_of_ascii (json_dumps L (Some 2) (aggregate s))) = Inr token
     \<and> drop (length (trace s)) (trace s') =
          [LockAcquire,
           FileWrite (py ''suspicions.json'') (map ucast (json_dumps L (Some 2) (aggregate s))),
           FileRead (py ''suspicions.json''),
           FileWrite (py ''suspicions.json.encrypted'') token,
           Print (py ''[CortexShade] Suspicion log encrypted and saved.''),
           LockRelease]
     \<and> under_lock False (drop (length (trace s)) (trace s')) =
          [FileWrite (py ''suspicions.json'') (map ucast (json_dumps L (Some 2) (aggregate s))),
           FileRead (py ''suspicions.json''),
           FileWrite (py ''suspicions.json.encrypted'') token,
           Print (py ''[CortexShade] Suspicion log encrypted and saved.'')]
     \<and> outside_lock False (drop (length (trace s)) (trace s')) = []"
proof -
  from tick_ok[OF assms] obtain token where
    tk: "encrypt L (key sys) entropy (str_of_ascii (json_dumps L (Some 2) (aggregate s))) = Inr token"
    and tr: "trace s' = trace s @
                [LockAcquire,
                 FileWrite (py ''suspicions.json'') (map ucast (json_dumps L (Some 2) (aggregate s))),
                 FileRead (py ''suspicions.json''),
                 FileWrite (py ''suspicions.json.encrypted'') token,
                 Print (py ''[CortexShade] Suspicion log encrypted and saved.''),
                 LockRelease]"
    by blast
  show ?thesis
    by (rule exI[of _ token]) (simp add: tk tr)
qed

theorem tick_holds_lock_throughout_witness:
  "encrypt_and_save_tick demo_libs demo_system [] demo_state
     = (fst (encrypt_and_save_tick demo_libs demo_system [] demo_state), None)
   \<and> (\<exists>token.
         encrypt demo_libs (key demo_system) []
           (str_of_ascii (json_dumps demo_libs (Some 2) (aggregate demo_state))) = Inr token
       \<and> under_lock False (drop (length (trace demo_state))
            (trace (fst (encrypt_and_save_tick demo_libs demo_system [] demo_state)))) =
          [FileWrite (py ''suspicions.json'')
             (map ucast (json_dumps demo_libs (Some 2) (aggregate demo_state))),
           FileRead (py ''suspicions.json''),
           FileWrite (py ''suspicions.json.encrypted'') token,
           Print (py ''[CortexShade] Suspicion log encrypted and saved.'')]
       \<and> outside_lock False (drop (length (trace demo_state))
            (trace (fst (encrypt_and_save_tick demo_libs demo_system [] demo_state)))) = [])"
proof -
  have "snd (encrypt_and_save_tick demo_libs demo_system [] demo_state) = None"
    by code_simp
  then have h: "encrypt_and_save_tick demo_libs demo_system [] demo_state
     = (fst (encrypt_and_save_tick demo_libs demo_system [] demo_state), None)"
    by (simp add: prod_eq_iff)
  from tick_holds_lock_throughout[OF h] h show ?thesis by blast
qed

theorem tick_io_under_lock_counterexample:
  "\<not> io_outside_lock (trace (fst (encrypt_and_save_tick demo_libs demo_system [] demo_state)))"
  unfolding io_outside_lock_def by code_simp

section \<open>The auditor's scores\<close>

lemma show_files_frame:
  "fs (show_files L reason timestamp files s) = fs s
   \<and> (\<exists>rest. trace (show_files L reason timestamp files s) = trace s @ rest)"
proof (induction files arbitrary: s)
  case Nil
  then show ?case by simp
next
  case (Cons f fls)
  let ?s1 = "if imread_ok L f then emit (ImShow reason timestamp f) s else s"
  have "fs ?s1 = fs s" "\<exists>r. trace ?s1 = trace s @ r" by (auto simp: emit_def)
  with Cons[of ?s1] show ?case by auto
qed

lemma display_events_frame:
  "display_events L events s = (s', r) \<Longrightarrow> \<exists>rest. trace s' = trace s @ rest"
proof (induction events arbitrary: s)
  case Nil
  then show ?case by simp
next
  case (Cons event events)
  show ?case
  proof (cases "dict_get event (py ''event'') (PStr (py ''unknown''))")
    case (Inl e)
    with Cons.prems show ?thesis by simp
  next
    case reason: (Inr reason)
    show ?thesis
    proof (cases "dict_get event (py ''timestamp'') (PStr (py ''unknown''))")
      case (Inl e)
      with Cons.prems reason show ?thesis by simp
    next
      case timestamp: (Inr timestamp)
      show ?thesis
      proof (cases "listdir (py ''screenshots'') s")
        case (Inl e)
        with Cons.prems reason timestamp show ?thesis by simp
      next
        case names: (Inr names)
        show ?thesis
        proof (cases "\<exists>r. reason = PStr r")
          case True
          then obtain rs where rs: "reason = PStr rs" by blast
          let ?s1 = "show_files L rs timestamp
                       (filter (\<lambda>f. str_contains rs f \<and> endswith f (py ''.jpg'')) names) s"
          from Cons.prems reason timestamp names rs
          have "display_events L events ?s1 = (s', r)" by simp
          from Cons.IH[OF this] show_files_frame[of L rs timestamp _ s]
          show ?thesis by (metis append.assoc)
        next
          case False
          with Cons.prems reason timestamp names
          have "(names = [] \<and> display_events L events s = (s', r)) \<or> s' = s"
            by (cases reason) (auto split: if_splits)
          with Cons.IH show ?thesis by auto
        qed
      qed
    qed
  qed
qed

lemma display_frame:
  "display L data vscore s = (s', r) \<Longrightarrow>
     \<exists>rest. trace s' = trace s @ Print (10 # py ''=== Displaying Screenshots ==='') # rest"
proof -
  assume a: "display L data vscore s = (s', r)"
  let ?s1 = "emit (Print (10 # py ''=== Displaying Screenshots ==='')) s"
  have t1: "trace ?s1 = trace s @ [Print (10 # py ''=== Displaying Screenshots ==='')]"
    by (simp add: emit_def)
  have "\<exists>rest. trace s' = trace ?s1 @ rest"
  proof (cases "vscore > 0")
    case False
    with a show ?thesis by (auto simp: display_def Let_def emit_def)
  next
    case True
    show ?thesis
    proof (cases "dict_get data (py ''video'') (PList [])")
      case (Inl e)
      with a True show ?thesis by (auto simp: display_def Let_def)
    next
      case v: (Inr v)
      show ?thesis
      proof (cases "py_iter v")
        case (Inl e)
        with a True v show ?thesis by (auto simp: display_def Let_def)
      next
        case (Inr events)
        with a True v have "display_events L events ?s1 = (s', r)"
          by (auto simp: display_def Let_def)
        from display_events_frame[OF this] show ?thesis .
      qed
    qed
  qed
  with t1 show ?thesis by auto
qed

lemma video_score_trace [simp]: "video_score (s\<lparr>trace := t\<rparr>) = video_score s"
  by (simp add: video_score_def path_exists_def listdir_def)

lemma video_score_dir:
  "fs s (py ''screenshots'') = Some (Dir names) \<Longrightarrow>
     video_score s = Inr (length (filter (\<lambda>f. endswith f (py ''.jpg'')) names))"
  by (simp add: video_score_def path_exists_def listdir_def)

lemma video_score_absent: "fs s (py ''screenshots'') = None \<Longrightarrow> video_score s = Inr 0"
  by (simp add: video_score_def path_exists_def)

lemma audio_score_list:
  "map_of kvs (py ''audio'') = Some (PList xs) \<Longrightarrow> audio_score (PDict kvs) = Inr (length xs)"
  by (simp add: audio_score_def dict_get_def py_len_def)

lemma report_trace:
  assumes "video_score s = Inr v" and "audio_score data = Inr a"
  shows "\<exists>rest. trace (fst (report L data s)) = trace s @
           [Print (10 # py ''=== Decrypted Suspicion Log ===''),
            Print (str_of_ascii (json_dumps L (Some 2) data)),
            Print (10 # py ''=== Cheating Scores ===''),
            Print (py ''Video Score (based on screenshots): '' @ show_nat v),
            Print (py ''Audio Score (based on log entries): '' @ show_nat a),
            Print (py ''Net Cheating Score: '' @ show_nat (v + a)),
            Print (10 # py ''=== Displaying Screenshots ==='')] @ rest"
proof -
  let ?pre = "[Print (10 # py ''=== Decrypted Suspicion Log ===''),
            Print (str_of_ascii (json_dumps L (Some 2) data)),
            Print (10 # py ''=== Cheating Scores ===''),
            Print (py ''Video Score (based on screenshots): '' @ show_nat v),
            Print (py ''Audio Score (based on log entries): '' @ show_nat a),
            Print (py ''Net Cheating Score: '' @ show_nat (v + a))]"
  let ?s5 = "s\<lparr>trace := trace s @ ?pre\<rparr>"
  have rep: "report L data s = display L data v ?s5"
    using assms by (simp add: report_def Let_def emit_def)
  obtain s' r where d: "display L data v ?s5 = (s', r)"
    by (cases "display L data v ?s5") auto
  from display_frame[OF d] obtain rest where
    "trace s' = trace ?s5 @ Print (10 # py ''=== Displaying Screenshots ==='') # rest" by blast
  then have "trace (fst (report L data s)) =
     trace s @ (?pre @ [Print (10 # py ''=== Displaying Screenshots ==='')]) @ rest"
    using rep d by simp
  then have "\<exists>rest. trace (fst (report L data s)) =
     trace s @ (?pre @ [Print (10 # py ''=== Displaying Screenshots ==='')]) @ rest" ..
  then show ?thesis by simp
qed

text \<open>
  Claim C8. With the aggregate \<open>data\<close> decrypted and the directory \<open>screenshots\<close>
  listing \<open>names\<close>, the video score is the number of names that end in \<open>.jpg\<close>, the
  audio score is the length of the list under \<open>audio\<close>, and the auditor prints both
  and their sum as the net score.
\<close>

theorem auditor_scores:
  assumes "fs s (py ''screenshots'') = Some (Dir names)"
    and "map_of kvs (py ''audio'') = Some (PList xs)"
  shows "video_score s = Inr (length (filter (\<lambda>f. endswith f (py ''.jpg'')) names))
     \<and> audio_score (PDict kvs) = Inr (length xs)
     \<and> (\<exists>rest. trace (fst (report L (PDict kvs) s)) = trace s @
           [Print (10 # py ''=== Decrypted Suspicion Log ===''),
            Print (str_of_ascii (json_dumps L (Some 2) (PDict kvs))),
            Print (10 # py ''=== Cheating Scores ===''),
            Print (py ''Video Score (based on screenshots): ''
                   @ show_nat (length (filter (\<lambda>f. endswith f (py ''.jpg'')) names))),
            Print (py ''Audio Score (based on log entries): '' @ show_nat (length xs)),
            Print (py ''Net Cheating Score: ''
                   @ show_nat (length (filter (\<lambda>f. endswith f (py ''.jpg'')) names) + length xs)),
            Print (10 # py ''=== Displaying Screenshots ==='')] @ rest)"
proof -
  have v: "video_score s = Inr (length (filter (\<lambda>f. endswith f (py ''.jpg'')) names))"
    by (rule video_score_dir[OF assms(1)])
  have a: "audio_score (PDict kvs) = Inr (length xs)"
    by (rule audio_score_list[OF assms(2)])
  from v a report_trace[OF v a, of L] show ?thesis by blast
qed

theorem auditor_scores_witness:
  "fs demo_audit_state (py ''screenshots'')
     = Some (Dir [py ''LEFT_1700000001.jpg'', py ''notes.txt'', py ''NO_FACE_1700000002.jpg''])
   \<and> map_of [(py ''video'', PList []), (py ''audio'', PList [PDict [], PDict [], PDict []])] (py ''audio'')
     = Some (PList [PDict [], PDict [], PDict []])
   \<and> video_score demo_audit_state = Inr 2
   \<and> audio_score (PDict [(py ''video'', PList []), (py ''audio'', PList [PDict [], PDict [], PDict []])])
     = Inr 3
   \<and> Print (py ''Net Cheating Score: 5'')
     \<in> set (trace (fst (report demo_libs
           (PDict [(py ''video'', PList []), (py ''audio'', PList [PDict [], PDict [], PDict []])])
           demo_audit_state)))"
proof -
  let ?names = "[py ''LEFT_1700000001.jpg'', py ''notes.txt'', py ''NO_FACE_1700000002.jpg'']"
  let ?kvs = "[(py ''video'', PList []), (py ''audio'', PList [PDict [], PDict [], PDict []])]"
  have a: "fs demo_audit_state (py ''screenshots'') = Some (Dir ?names)"
    by (simp add: demo_audit_state_def demo_state_def)
  have b: "map_of ?kvs (py ''audio'') = Some (PList [PDict [], PDict [], PDict []])"
    by (simp add: py_def)
  have n: "length (filter (\<lambda>f. endswith f (py ''.jpg'')) ?names) = 2"
    by (simp add: endswith_def py_def)
  have m: "length [PDict [], PDict [], PDict []] = 3"
    by simp
  have five: "py ''Net Cheating Score: '' @ show_nat (2 + 3) = py ''Net Cheating Score: 5''"
    by (simp add: py_def)
  note th = auditor_scores[OF a b, of demo_libs, unfolded n m five]
  from th obtain rest where
    tr: "trace (fst (report demo_libs (PDict ?kvs) demo_audit_state)) = trace demo_audit_state @
           [Print (10 # py ''=== Decrypted Suspicion Log ===''),
            Print (str_of_ascii (json_dumps demo_libs (Some 2) (PDict ?kvs))),
            Print (10 # py ''=== Cheating Scores ===''),
            Print (py ''Video Score (based on screenshots): '' @ show_nat 2),
            Print (py ''Audio Score (based on log entries): '' @ show_nat 3),
            Print (py ''Net Cheating Score: 5''),
            Print (10 # py ''=== Displaying Screenshots ==='')] @ rest"
    by blast
  have p: "Print (py ''Net Cheating Score: 5'')
     \<in> set (trace (fst (report demo_libs (PDict ?kvs) demo_audit_state)))"
    unfolding tr by (simp del: show_nat.simps)
  from th have v: "video_score demo_audit_state = Inr 2"
    and au: "audio_score (PDict ?kvs) = Inr 3" by blast+
  from a b v au p show ?thesis by blast
qed

section \<open>The normal session: store, tick, audit\<close>























end
